theory Spec2Isabelle
  imports Main "HOL-Library.Sublist"
begin

section \<open>Strings, exceptions and messages\<close>

text \<open>
  A Python \<open>str\<close> is a sequence of Unicode code points, and \<open>len\<close> and slicing count
  code points. A string is therefore a list of code points (natural numbers);
  \<open>py\<close> turns an ASCII literal into such a list.
\<close>

type_synonym pystr = "nat list"

definition py :: "string \<Rightarrow> pystr" where
  "py s = map of_char s"

text \<open>\<open>sub in s\<close> on Python strings: \<open>sub\<close> occurs as a contiguous piece of \<open>s\<close>.\<close>

definition str_in :: "pystr \<Rightarrow> pystr \<Rightarrow> bool" where
  "str_in sub s = sublist sub s"

text \<open>
  An exception caught by \<open>except Exception as e\<close>; the program only ever reads
  \<open>str(e)\<close>, so the exception carries that text.
\<close>

datatype exn = Exception pystr

fun str_of :: "exn \<Rightarrow> pystr" where
  "str_of (Exception s) = s"

text \<open>A call of a collaborator either raises or returns.\<close>

datatype 'a outcome = Raises exn | Returns 'a

text \<open>
  The three message classes the program creates and tests with \<open>isinstance\<close>.
  A message has its text content and the identifier that the message reducer
  of the graph gives it (\<open>None\<close> for a message that was just constructed).
\<close>

datatype msg_class = HumanMessage | AIMessage | SystemMessage

record message =
  cls :: msg_class
  content :: pystr
  msg_id :: "nat option"

section \<open>The agent node\<close>

text \<open>
  The text of the f-string of \<open>agent_node\<close> before and after \<open>{context_snippet}\<close>;
  code point 10 is the newline.
\<close>

definition context_prefix :: pystr where
  "context_prefix =
     py ''You are a helpful assistant. You have access to the following document content:''
     @ [10, 10] @ py ''---'' @ [10]"

definition context_suffix :: pystr where
  "context_suffix =
     [10] @ py ''---'' @ [10, 10]
     @ py ''Answer the user'' @ [39]
     @ py ''s questions based on this document. If the answer is not in the document, say so.''"

text \<open>
  \<open>any(isinstance(m, SystemMessage) and "document content" in m.content for m in messages)\<close>
\<close>

definition is_context_message :: "message \<Rightarrow> bool" where
  "is_context_message m \<longleftrightarrow> cls m = SystemMessage \<and> str_in (py ''document content'') (content m)"

definition has_context :: "message list \<Rightarrow> bool" where
  "has_context messages = list_ex is_context_message messages"

text \<open>
  Lines 109 to 127 of \<open>agent_node\<close>: the local list \<open>messages\<close> after the context step.
  \<open>context_text[:4000]\<close> is \<open>take 4000\<close>, and \<open>messages.insert(0, system_msg)\<close>
  puts the new message in front.
\<close>

definition inject_context :: "pystr \<Rightarrow> message list \<Rightarrow> message list" where
  "inject_context context_text messages =
     (if context_text \<noteq> [] \<and> messages \<noteq> [] then
        (if \<not> has_context messages then
           (let context_snippet = take 4000 context_text;
                system_msg = \<lparr>cls = SystemMessage,
                              content = context_prefix @ context_snippet @ context_suffix,
                              msg_id = None\<rparr>
            in system_msg # messages)
         else messages)
      else messages)"

text \<open>
  The environment of the node: building the \<open>ChatGroq\<close> client (which reads
  \<open>st.secrets["GROQ_API_KEY"]\<close>) raises or returns a client, and \<open>llm.invoke\<close> of that
  client raises or returns the content of the reply.
\<close>

record env =
  groq_client :: "(message list \<Rightarrow> pystr outcome) outcome"

definition error_msg :: "exn \<Rightarrow> message" where
  "error_msg e = \<lparr>cls = AIMessage, content = py ''Error: '' @ str_of e, msg_id = None\<rparr>"

text \<open>
  \<open>agent_node\<close> returns the messages of its state update, together with the list of the
  message lists that were passed to \<open>llm.invoke\<close> (empty when the model was not called).
  Both \<open>except Exception\<close> paths end in the same handler.
\<close>

definition agent_node :: "env \<Rightarrow> pystr \<Rightarrow> message list \<Rightarrow> message list \<times> message list list" where
  "agent_node ev context_text state_messages =
     (case groq_client ev of
        Raises e \<Rightarrow> ([error_msg e], [])
      | Returns llm \<Rightarrow>
          (let messages = inject_context context_text state_messages in
           case llm messages of
             Raises e \<Rightarrow> ([error_msg e], [messages])
           | Returns response \<Rightarrow>
               ([\<lparr>cls = AIMessage, content = response, msg_id = None\<rparr>], [messages])))"

text \<open>
  The snippet of a context message: what stands between the fixed prefix and the fixed
  suffix of its content.
\<close>

definition embedded_snippet :: "message \<Rightarrow> pystr" where
  "embedded_snippet m =
     take (length (content m) - length context_prefix - length context_suffix)
          (drop (length context_prefix) (content m))"

section \<open>The graph\<close>

text \<open>
  \<open>build_graph\<close> makes a graph with the single node \<open>agent\<close> between entry and \<open>END\<close>,
  whose state has the one channel \<open>messages\<close> with the reducer \<open>add_messages\<close>, and
  compiles it with an \<open>InMemorySaver\<close>. The reducer and the saver belong to LangGraph, not
  to this program; they are written out here as that library documents them:
  a message without an identifier receives a new one (\<open>uuid4\<close>, here a number that
  occurs in neither list), a message of the right list whose identifier is already in the
  merged list replaces the message at that position, and any other message is appended.
  \<open>RemoveMessage\<close> is never created by this program and is left out.
\<close>

definition fresh_id :: "message list \<Rightarrow> nat" where
  "fresh_id ms = Suc (fold max (List.map_filter msg_id ms) 0)"

fun assign_ids :: "nat \<Rightarrow> message list \<Rightarrow> message list" where
  "assign_ids n [] = []"
| "assign_ids n (m # ms) =
     (case msg_id m of
        None \<Rightarrow> m\<lparr>msg_id := Some n\<rparr> # assign_ids (Suc n) ms
      | Some _ \<Rightarrow> m # assign_ids n ms)"

text \<open>
  \<open>merged_by_id\<close> maps an identifier to the last position that holds it; the message
  there is replaced, and a message with an unknown identifier goes to the end.
\<close>

fun merge_message :: "message list \<Rightarrow> message \<Rightarrow> message list" where
  "merge_message [] m = [m]"
| "merge_message (x # xs) m =
     (if msg_id x = msg_id m \<and> \<not> list_ex (\<lambda>y. msg_id y = msg_id m) xs then m # xs
      else x # merge_message xs m)"

definition add_messages :: "message list \<Rightarrow> message list \<Rightarrow> message list" where
  "add_messages left right =
     (let n = fresh_id (left @ right);
          left' = assign_ids n left;
          right' = assign_ids (n + length (filter (\<lambda>m. msg_id m = None) left)) right
      in fold (\<lambda>m merged. merge_message merged m) right' left')"

text \<open>
  \<open>graph.invoke({"messages": input}, config)\<close> with the constant thread of
  \<open>st.session_state["config"]\<close>: the input is merged into the messages the saver holds
  for the thread, the node runs on the merged state, and its update is merged in turn.
  The result is the final channel value, which the saver keeps. The second component is
  the list of the calls of the model, as for \<open>agent_node\<close>.
\<close>

definition graph_invoke ::
    "env \<Rightarrow> pystr \<Rightarrow> message list \<Rightarrow> message list \<Rightarrow> message list \<times> message list list" where
  "graph_invoke ev context_text saved input =
     (let state = add_messages saved input;
          (update, calls) = agent_node ev context_text state
      in (add_messages state update, calls))"

section \<open>Documents\<close>

text \<open>
  \<open>str.strip()\<close> removes the white space of Unicode at both ends; \<open>is_space\<close> lists the
  code points for which \<open>str.isspace\<close> holds.
\<close>

definition is_space :: "nat \<Rightarrow> bool" where
  "is_space c \<longleftrightarrow>
     (9 \<le> c \<and> c \<le> 13) \<or> (28 \<le> c \<and> c \<le> 32) \<or> c = 133 \<or> c = 160 \<or> c = 5760
     \<or> (8192 \<le> c \<and> c \<le> 8202) \<or> c = 8232 \<or> c = 8233 \<or> c = 8239 \<or> c = 8287 \<or> c = 12288"

definition strip :: "pystr \<Rightarrow> pystr" where
  "strip s = rev (dropWhile is_space (rev (dropWhile is_space s)))"

text \<open>What the interface shows besides the chat: the calls of \<open>st.warning\<close>,
  \<open>st.error\<close>, \<open>st.success\<close>, the chat bubbles and \<open>st.rerun\<close>, one constructor for each
  message text of the program.\<close>

datatype ui =
    WarnNoPages pystr
  | ErrorProcessingPdf exn
  | ErrorFetchingUrl exn
  | SuccessExtracted nat
  | ErrorFailedPdf
  | ErrorFailedWeb
  | WarnLoadDocumentFirst
  | ChatUser pystr
  | ChatAssistant pystr
  | ErrorTurn
  | Rerun

text \<open>
  An uploaded file as \<open>extract_pdf_text\<close> sees it: its name, what \<open>seek(0)\<close> does, and
  what \<open>PdfReader(pdf_file)\<close> gives: it raises, or it returns a reader without pages
  (\<open>None\<close>), or one with a list of pages, where a page may be \<open>None\<close> and
  \<open>page.extract_text()\<close> raises or returns \<open>None\<close> or a string.
\<close>

type_synonym page = "pystr option outcome"

record pdf_file =
  file_name :: pystr
  seek :: "unit outcome"
  pdf_reader :: "page option list option outcome"

text \<open>The value of \<open>st.session_state["uploaded_pdf"]\<close>: \<open>None\<close>, one file, or a list.\<close>

datatype uploaded = NoUpload | OneFile pdf_file | FileList "pdf_file option list"

fun truthy_upload :: "uploaded \<Rightarrow> bool" where
  "truthy_upload NoUpload = False"
| "truthy_upload (OneFile f) = True"
| "truthy_upload (FileList fs) = (fs \<noteq> [])"

text \<open>The answer to \<open>requests.get\<close>: its status code, the \<open>HTTPError\<close> that
  \<open>raise_for_status()\<close> builds for it, and the text that BeautifulSoup gives for its body
  once the script and style elements are removed (\<open>soup.get_text()\<close>); parsing may
  raise.\<close>

record response =
  status_code :: nat
  http_error :: exn
  soup_text :: "pystr outcome"

text \<open>\<open>Response.raise_for_status\<close> of the requests library: it raises the \<open>HTTPError\<close> for
  a client error (400 to 499) and for a server error (500 to 599), and returns for any
  other status.\<close>

definition raise_for_status :: "response \<Rightarrow> unit outcome" where
  "raise_for_status resp =
     (if 400 \<le> status_code resp \<and> status_code resp < 600 then Raises (http_error resp)
      else Returns ())"

record session =
  uploaded_pdf :: uploaded
  web_url :: "pystr option"
  chat_messages :: "message list"
  documents_processed :: bool
  extracted_text :: pystr
  checkpoint :: "message list"

text \<open>The inner loop of \<open>extract_pdf_text\<close> over the pages of one reader.\<close>

fun read_pages :: "page option list \<Rightarrow> pystr \<Rightarrow> pystr outcome" where
  "read_pages [] text = Returns text"
| "read_pages (None # ps) text = read_pages ps text"
| "read_pages (Some pg # ps) text =
     (case pg of
        Raises e \<Rightarrow> Raises e
      | Returns None \<Rightarrow> read_pages ps text
      | Returns (Some page_text) \<Rightarrow>
          (if page_text \<noteq> [] then read_pages ps (text @ page_text @ [10])
           else read_pages ps text))"

text \<open>The outer loop over the files, inside the \<open>try\<close>: an exception leaves the loop;
  the warnings shown so far stay.\<close>

fun process_files :: "pdf_file option list \<Rightarrow> pystr \<Rightarrow> ui list \<Rightarrow> pystr outcome \<times> ui list" where
  "process_files [] text shown = (Returns text, shown)"
| "process_files (None # fs) text shown = process_files fs text shown"
| "process_files (Some f # fs) text shown =
     (case seek f of
        Raises e \<Rightarrow> (Raises e, shown)
      | Returns _ \<Rightarrow>
          (case pdf_reader f of
             Raises e \<Rightarrow> (Raises e, shown)
           | Returns None \<Rightarrow> process_files fs text (shown @ [WarnNoPages (file_name f)])
           | Returns (Some pages) \<Rightarrow>
               (case read_pages pages text of
                  Raises e \<Rightarrow> (Raises e, shown)
                | Returns text' \<Rightarrow> process_files fs text' shown)))"

definition extract_pdf_text :: "session \<Rightarrow> pystr \<times> ui list" where
  "extract_pdf_text s =
     (let pdf_docs = uploaded_pdf s in
      if \<not> truthy_upload pdf_docs then ([], [])
      else
        (let files_to_process =
               (case pdf_docs of FileList fs \<Rightarrow> fs | OneFile f \<Rightarrow> [Some f] | NoUpload \<Rightarrow> [])
         in case process_files files_to_process [] [] of
              (Raises e, shown) \<Rightarrow> ([], shown @ [ErrorProcessingPdf e])
            | (Returns text, shown) \<Rightarrow> (strip text, shown)))"

text \<open>\<open>str.splitlines()\<close>: the line boundaries of Python, \<open>\r\n\<close> counting as one.\<close>

definition is_linebreak :: "nat \<Rightarrow> bool" where
  "is_linebreak c \<longleftrightarrow> (10 \<le> c \<and> c \<le> 13) \<or> (28 \<le> c \<and> c \<le> 30) \<or> c = 133 \<or> c = 8232 \<or> c = 8233"

fun splitlines :: "pystr \<Rightarrow> pystr \<Rightarrow> pystr list" where
  "splitlines [] cur = (if cur = [] then [] else [cur])"
| "splitlines [c] cur = (if is_linebreak c then [cur] else [cur @ [c]])"
| "splitlines (c # d # cs) cur =
     (if c = 13 \<and> d = 10 then cur # splitlines cs []
      else if is_linebreak c then cur # splitlines (d # cs) []
      else splitlines (d # cs) (cur @ [c]))"

text \<open>\<open>line.split("  ")\<close>: cut at each pair of spaces, from the left.\<close>

fun split_two_spaces :: "pystr \<Rightarrow> pystr \<Rightarrow> pystr list" where
  "split_two_spaces [] cur = [cur]"
| "split_two_spaces [c] cur = [cur @ [c]]"
| "split_two_spaces (c # d # cs) cur =
     (if c = 32 \<and> d = 32 then cur # split_two_spaces cs []
      else split_two_spaces (d # cs) (cur @ [c]))"

fun join_space :: "pystr list \<Rightarrow> pystr" where
  "join_space [] = []"
| "join_space [x] = x"
| "join_space (x # y # ys) = x @ [32] @ join_space (y # ys)"

text \<open>
  \<open>extract_web_text\<close>, given what \<open>requests.get\<close> answers for a URL (the time limit of
  10 seconds and the user agent are the library's business: a timeout is a raise).
\<close>

definition extract_web_text :: "(pystr \<Rightarrow> response outcome) \<Rightarrow> session \<Rightarrow> pystr \<times> ui list" where
  "extract_web_text requests_get s =
     (case web_url s of
        None \<Rightarrow> ([], [])
      | Some url \<Rightarrow>
          if url = [] then ([], [])
          else
            (case requests_get url of
               Raises e \<Rightarrow> ([], [ErrorFetchingUrl e])
             | Returns resp \<Rightarrow>
                 (case raise_for_status resp of
                    Raises e \<Rightarrow> ([], [ErrorFetchingUrl e])
                  | Returns _ \<Rightarrow>
                      (case soup_text resp of
                         Raises e \<Rightarrow> ([], [ErrorFetchingUrl e])
                       | Returns text \<Rightarrow>
                           (let lines = map strip (splitlines text []);
                                chunks = map strip (concat (map (\<lambda>line. split_two_spaces line []) lines));
                                text' = join_space (filter (\<lambda>chunk. chunk \<noteq> []) chunks)
                            in (strip text', []))))))"

section \<open>The script: sidebar and chat\<close>

text \<open>The body of the branch \<open>doc_type == "PDF Upload"\<close>, given the value of the file
  uploader.\<close>

definition pdf_upload_branch :: "session \<Rightarrow> uploaded \<Rightarrow> session \<times> ui list" where
  "pdf_upload_branch s uploaded =
     (if truthy_upload uploaded then
        (let s1 = (if uploaded_pdf s \<noteq> uploaded
                   then s\<lparr>uploaded_pdf := uploaded, web_url := None,
                          documents_processed := False, chat_messages := [],
                          extracted_text := []\<rparr>
                   else s)
         in if \<not> documents_processed s1 then
              (case extract_pdf_text s1 of
                 (text, shown) \<Rightarrow>
                   if text \<noteq> []
                   then (s1\<lparr>extracted_text := text, documents_processed := True\<rparr>,
                         shown @ [SuccessExtracted (length text)])
                   else (s1, shown @ [ErrorFailedPdf]))
            else (s1, []))
      else (s, []))"

text \<open>The body of the branch for a web URL, given the text input and whether the button
  "Load URL" was pressed.\<close>

definition web_url_branch ::
    "(pystr \<Rightarrow> response outcome) \<Rightarrow> session \<Rightarrow> pystr \<Rightarrow> bool \<Rightarrow> session \<times> ui list" where
  "web_url_branch requests_get s url button =
     (if url \<noteq> [] \<and> button then
        (let s1 = (if web_url s \<noteq> Some url
                   then s\<lparr>web_url := Some url, uploaded_pdf := NoUpload,
                          documents_processed := False, chat_messages := [],
                          extracted_text := []\<rparr>
                   else s)
         in if \<not> documents_processed s1 then
              (case extract_web_text requests_get s1 of
                 (text, shown) \<Rightarrow>
                   if text \<noteq> []
                   then (s1\<lparr>extracted_text := text, documents_processed := True\<rparr>,
                         shown @ [SuccessExtracted (length text)])
                   else (s1, shown @ [ErrorFailedWeb]))
            else (s1, []))
      else (s, []))"

text \<open>The buttons "Clear Document" (shown only while a text is loaded) and "New Chat".\<close>

definition clear_document :: "session \<Rightarrow> session" where
  "clear_document s =
     (if extracted_text s \<noteq> []
      then s\<lparr>uploaded_pdf := NoUpload, web_url := None, documents_processed := False,
             chat_messages := [], extracted_text := []\<rparr>
      else s)"

definition new_chat :: "session \<Rightarrow> session" where
  "new_chat s = s\<lparr>chat_messages := []\<rparr>"

text \<open>
  The chat input at the end of the script. \<open>prompt\<close> is what \<open>st.chat_input\<close> returned;
  \<open>None\<close> and the empty string fail the test of the \<open>if\<close>. The result is the new session,
  what was shown, and the calls of the model. \<open>agent_node\<close> catches every exception, so in
  this model \<open>graph.invoke\<close> itself does not raise; the \<open>except\<close> of the script is
  reached only by \<open>result["messages"][-1]\<close> on an empty list.
\<close>

definition chat_input :: "env \<Rightarrow> session \<Rightarrow> pystr option \<Rightarrow> session \<times> ui list \<times> message list list" where
  "chat_input ev s prompt =
     (case prompt of
        None \<Rightarrow> (s, [], [])
      | Some p \<Rightarrow>
          if p = [] then (s, [], [])
          else if extracted_text s = [] then (s, [WarnLoadDocumentFirst], [])
          else
            (let user_msg = \<lparr>cls = HumanMessage, content = p, msg_id = None\<rparr>;
                 messages = chat_messages s @ [user_msg]
             in case graph_invoke ev (extracted_text s) (checkpoint s) messages of
                  (result, calls) \<Rightarrow>
                    (s\<lparr>chat_messages := result, checkpoint := result\<rparr>,
                     [ChatUser p]
                     @ (if result = [] then [ErrorTurn]
                        else if cls (last result) = AIMessage
                        then [ChatAssistant (content (last result))] else [])
                     @ [Rerun],
                     calls)))"

text \<open>Several turns, one after the other, with all the calls of the model.\<close>

fun run_turns :: "env \<Rightarrow> session \<Rightarrow> pystr list \<Rightarrow> session \<times> message list list" where
  "run_turns ev s [] = (s, [])"
| "run_turns ev s (p # ps) =
     (case chat_input ev s (Some p) of
        (s', shown, calls) \<Rightarrow>
          (case run_turns ev s' ps of (s'', calls') \<Rightarrow> (s'', calls @ calls')))"

section \<open>Notions used in the statements\<close>

text \<open>The session at the first run of the script, as the block "Initialize session
  state" sets it; the saver of the graph holds nothing yet.\<close>

definition initial_session :: session where
  "initial_session =
     \<lparr>uploaded_pdf = NoUpload, web_url = None, chat_messages = [],
      documents_processed = False, extracted_text = [], checkpoint = []\<rparr>"

text \<open>A context message, if the list has one, is the first element and the only one.\<close>

definition context_placed :: "message list \<Rightarrow> bool" where
  "context_placed ms \<longleftrightarrow>
     (has_context ms \<longrightarrow> is_context_message (ms ! 0) \<and> length (filter is_context_message ms) = 1)"

definition all_ids :: "message list \<Rightarrow> bool" where
  "all_ids ms = list_all (\<lambda>m. msg_id m \<noteq> None) ms"

text \<open>
  Notions for the statements about \<open>extract_pdf_text\<close>: whether processing a file raises
  (on \<open>seek\<close>, on reading, or on extracting a page), the non-empty texts of its pages, the
  warning it causes, the files of a list that are not \<open>None\<close>, and the concatenation of
  texts each followed by a newline.
\<close>

fun page_raises :: "page option \<Rightarrow> bool" where
  "page_raises (Some (Raises e)) = True"
| "page_raises _ = False"

fun page_text :: "page option \<Rightarrow> pystr" where
  "page_text (Some (Returns (Some t))) = t"
| "page_text _ = []"

definition file_raises :: "pdf_file \<Rightarrow> bool" where
  "file_raises f =
     (case seek f of
        Raises _ \<Rightarrow> True
      | Returns _ \<Rightarrow>
          (case pdf_reader f of
             Raises _ \<Rightarrow> True
           | Returns None \<Rightarrow> False
           | Returns (Some pages) \<Rightarrow> list_ex page_raises pages))"

definition file_page_texts :: "pdf_file \<Rightarrow> pystr list" where
  "file_page_texts f =
     (case pdf_reader f of
        Returns (Some pages) \<Rightarrow> filter (\<lambda>t. t \<noteq> []) (map page_text pages)
      | _ \<Rightarrow> [])"

definition file_warnings :: "pdf_file \<Rightarrow> ui list" where
  "file_warnings f =
     (case pdf_reader f of Returns None \<Rightarrow> [WarnNoPages (file_name f)] | _ \<Rightarrow> [])"

fun present :: "'a option list \<Rightarrow> 'a list" where
  "present [] = []"
| "present (None # fs) = present fs"
| "present (Some f # fs) = f # present fs"

definition lines_of :: "pystr list \<Rightarrow> pystr" where
  "lines_of ts = concat (map (\<lambda>t. t @ [10]) ts)"

text \<open>Examples: a readable and an unreadable PDF file, a web page with a given status
  and text, a model that answers, the session after a page was loaded from a URL, the
  same session after one turn, and a session with a PDF loaded after one turn.\<close>

definition good_file :: pdf_file where
  "good_file = \<lparr>file_name = py ''a.pdf'', seek = Returns (),
     pdf_reader = Returns (Some [Some (Returns (Some (py ''abc'')))])\<rparr>"

definition bad_file :: pdf_file where
  "bad_file = \<lparr>file_name = py ''b.pdf'', seek = Returns (),
     pdf_reader = Raises (Exception (py ''EOF marker not found''))\<rparr>"

definition status_page :: "nat \<Rightarrow> pystr \<Rightarrow> pystr \<Rightarrow> response outcome" where
  "status_page code body url =
     Returns \<lparr>status_code = code, http_error = Exception (py ''HTTPError''),
              soup_text = Returns body\<rparr>"

definition page_with :: "pystr \<Rightarrow> pystr \<Rightarrow> response outcome" where
  "page_with body url = status_page 200 body url"

definition ev_ok :: env where
  "ev_ok = \<lparr>groq_client = Returns (\<lambda>ms. Returns (py ''ok''))\<rparr>"

definition loaded_session :: session where
  "loaded_session = initial_session\<lparr>web_url := Some (py ''u''), extracted_text := py ''old'',
     documents_processed := True\<rparr>"

definition one_exchange :: "message list" where
  "one_exchange = [\<lparr>cls = HumanMessage, content = py ''hi'', msg_id = Some 1\<rparr>,
                   \<lparr>cls = AIMessage, content = py ''ok'', msg_id = Some 2\<rparr>]"

definition chatted_session :: session where
  "chatted_session = loaded_session\<lparr>chat_messages := one_exchange, checkpoint := one_exchange\<rparr>"

definition pdf_chatted_session :: session where
  "pdf_chatted_session =
     initial_session\<lparr>uploaded_pdf := FileList [Some good_file], extracted_text := py ''abc'',
       documents_processed := True, chat_messages := one_exchange, checkpoint := one_exchange\<rparr>"

section \<open>Properties of the context step\<close>

lemma context_prefix_mentions_document:
  "\<exists>a b. context_prefix = a @ py ''document content'' @ b"
proof -
  have "context_prefix =
      py ''You are a helpful assistant. You have access to the following ''
      @ py ''document content'' @ (py '':'' @ [10, 10] @ py ''---'' @ [10])"
    by (simp add: context_prefix_def py_def)
  then show ?thesis by blast
qed

lemma injected_is_context_message:
  "is_context_message
     \<lparr>cls = SystemMessage, content = context_prefix @ snippet @ context_suffix, msg_id = None\<rparr>"
proof -
  obtain a b where "context_prefix = a @ py ''document content'' @ b"
    using context_prefix_mentions_document by blast
  then have "context_prefix @ snippet @ context_suffix
      = a @ py ''document content'' @ (b @ snippet @ context_suffix)"
    by simp
  then have "sublist (py ''document content'') (context_prefix @ snippet @ context_suffix)"
    unfolding sublist_def by blast
  then show ?thesis
    by (simp add: is_context_message_def str_in_def)
qed

lemma has_context_after_injection:
  "context_text \<noteq> [] \<Longrightarrow> messages \<noteq> [] \<Longrightarrow> has_context (inject_context context_text messages)"
  by (simp add: inject_context_def has_context_def Let_def injected_is_context_message)

lemma embedded_snippet_injected:
  "embedded_snippet
     \<lparr>cls = SystemMessage, content = context_prefix @ snippet @ context_suffix, msg_id = None\<rparr>
   = snippet"
  by (simp add: embedded_snippet_def)

text \<open>
  C1. Context injection is idempotent: running the context step twice with the same
  document text gives the same message list as running it once, because the inserted
  system message itself contains "document content".
\<close>

theorem inject_context_idempotent:
  "inject_context d (inject_context d c) = inject_context d c"
proof (cases "d \<noteq> [] \<and> c \<noteq> []")
  case True
  then have "has_context (inject_context d c)"
    by (simp add: has_context_after_injection)
  then show ?thesis
    by (simp add: inject_context_def [of d "inject_context d c"])
next
  case False
  then show ?thesis
    by (auto simp: inject_context_def)
qed

text \<open>
  C2. Truncation bound: when the context step inserts its message, the snippet embedded
  in it is the first 4000 characters of the document text when the text is longer than
  4000 characters, and the whole text, unchanged, otherwise.
\<close>

theorem truncation_bound:
  assumes "context_text \<noteq> []" and "messages \<noteq> []" and "\<not> has_context messages"
  shows "inject_context context_text messages = hd (inject_context context_text messages) # messages
    \<and> is_context_message (hd (inject_context context_text messages))
    \<and> (4000 < length context_text \<longrightarrow>
          length (embedded_snippet (hd (inject_context context_text messages))) = 4000
          \<and> embedded_snippet (hd (inject_context context_text messages)) = take 4000 context_text)
    \<and> (length context_text \<le> 4000 \<longrightarrow>
          embedded_snippet (hd (inject_context context_text messages)) = context_text)"
proof -
  let ?m = "\<lparr>cls = SystemMessage,
              content = context_prefix @ take 4000 context_text @ context_suffix,
              msg_id = None\<rparr>"
  have step: "inject_context context_text messages = ?m # messages"
    using assms by (simp add: inject_context_def Let_def)
  show ?thesis
    by (simp add: step embedded_snippet_injected injected_is_context_message)
qed

theorem truncation_bound_witness:
  "length (embedded_snippet (hd (inject_context (replicate 4001 97)
      [\<lparr>cls = HumanMessage, content = py ''hi'', msg_id = None\<rparr>]))) = 4000
   \<and> embedded_snippet (hd (inject_context (py ''abc'')
      [\<lparr>cls = HumanMessage, content = py ''hi'', msg_id = None\<rparr>])) = py ''abc''"
proof -
  let ?ms = "[\<lparr>cls = HumanMessage, content = py ''hi'', msg_id = None\<rparr>]"
  have no: "\<not> has_context ?ms"
    by (simp add: has_context_def is_context_message_def)
  have long: "replicate 4001 (97::nat) \<noteq> []" and short: "py ''abc'' \<noteq> []"
    by (simp_all add: py_def)
  show ?thesis
    using truncation_bound [OF long _ no] truncation_bound [OF short _ no]
    by (simp add: py_def)
qed

text \<open>
  C8. Empty-document no-op: with the empty document text the context step returns the
  message list it was given.
\<close>

theorem inject_context_empty_document:
  "inject_context [] c = c"
  by (simp add: inject_context_def)

text \<open>
  C10. The context step needs a message: on the empty message list nothing is inserted,
  also for a non-empty document text, and the model is then invoked with the empty list,
  which holds no context message.
\<close>

theorem inject_context_empty_messages:
  assumes "context_text \<noteq> []" and "groq_client ev = Returns llm"
  shows "inject_context context_text [] = []
    \<and> \<not> has_context (inject_context context_text [])
    \<and> snd (agent_node ev context_text []) = [[]]"
  using assms by (simp add: inject_context_def has_context_def agent_node_def split: outcome.splits)

theorem inject_context_empty_messages_witness:
  "inject_context (py ''doc'') [] = []
   \<and> \<not> has_context (inject_context (py ''doc'') [])
   \<and> snd (agent_node \<lparr>groq_client = Returns (\<lambda>ms. Returns (py ''ok''))\<rparr> (py ''doc'') []) = [[]]"
proof -
  have d: "py ''doc'' \<noteq> []"
    by (simp add: py_def)
  show ?thesis
    using inject_context_empty_messages [OF d, of "\<lparr>groq_client = Returns (\<lambda>ms. Returns (py ''ok''))\<rparr>"]
    by (simp add: has_context_def)
qed

section \<open>The reducer and the turns\<close>

lemma is_context_message_msg_id [simp]:
  "is_context_message (m\<lparr>msg_id := i\<rparr>) = is_context_message m"
  by (simp add: is_context_message_def)

lemma has_context_Nil [simp]: "\<not> has_context []"
  by (simp add: has_context_def)

lemma has_context_Cons [simp]:
  "has_context (m # ms) \<longleftrightarrow> is_context_message m \<or> has_context ms"
  by (simp add: has_context_def)

lemma has_context_append [simp]:
  "has_context (xs @ ys) \<longleftrightarrow> has_context xs \<or> has_context ys"
  by (simp add: has_context_def list_ex_iff) blast

lemma has_context_assign_ids [simp]:
  "has_context (assign_ids n ms) = has_context ms"
  by (induction ms arbitrary: n) (auto split: option.splits)

lemma has_context_merge_message:
  "has_context (merge_message xs m) \<Longrightarrow> has_context xs \<or> is_context_message m"
  by (induction xs) (auto split: if_splits)

lemma has_context_fold_merge:
  "has_context (fold (\<lambda>m merged. merge_message merged m) r l) \<Longrightarrow> has_context l \<or> has_context r"
proof (induction r arbitrary: l)
  case Nil
  then show ?case by simp
next
  case (Cons m r)
  then have "has_context (merge_message l m) \<or> has_context r"
    by simp
  then show ?case
    using has_context_merge_message by auto
qed

lemma has_context_add_messages:
  "has_context (add_messages l r) \<Longrightarrow> has_context l \<or> has_context r"
  unfolding add_messages_def Let_def
  by (drule has_context_fold_merge) simp

lemma all_ids_assign_ids: "all_ids (assign_ids n ms)"
  by (induction ms arbitrary: n) (auto simp: all_ids_def split: option.splits)

lemma all_ids_merge_message:
  "all_ids xs \<Longrightarrow> msg_id m \<noteq> None \<Longrightarrow> all_ids (merge_message xs m)"
  by (induction xs) (auto simp: all_ids_def)

lemma all_ids_fold_merge:
  "all_ids l \<Longrightarrow> all_ids r \<Longrightarrow> all_ids (fold (\<lambda>m merged. merge_message merged m) r l)"
proof (induction r arbitrary: l)
  case Nil
  then show ?case by simp
next
  case (Cons m r)
  from Cons.prems have m: "msg_id m \<noteq> None" and r: "all_ids r"
    by (simp_all add: all_ids_def)
  have "all_ids (merge_message l m)"
    using Cons.prems(1) m by (rule all_ids_merge_message)
  then have "all_ids (fold (\<lambda>m merged. merge_message merged m) r (merge_message l m))"
    using r by (rule Cons.IH)
  then show ?case by simp
qed

lemma all_ids_add_messages: "all_ids (add_messages l r)"
  unfolding add_messages_def Let_def
  by (intro all_ids_fold_merge all_ids_assign_ids)

lemma assign_ids_all_ids: "all_ids ms \<Longrightarrow> assign_ids n ms = ms"
  by (induction ms arbitrary: n) (auto simp: all_ids_def)

lemma no_missing_ids: "all_ids ms \<Longrightarrow> filter (\<lambda>m. msg_id m = None) ms = []"
  by (induction ms) (auto simp: all_ids_def)

lemma fold_max_ge: "(a::nat) \<le> fold max xs a"
proof (induction xs arbitrary: a)
  case Nil
  then show ?case by simp
next
  case (Cons x xs)
  have "a \<le> max x a" by simp
  also have "\<dots> \<le> fold max xs (max x a)" by (rule Cons.IH)
  finally show ?case by simp
qed

lemma fold_max_member: "(x::nat) \<in> set xs \<Longrightarrow> x \<le> fold max xs a"
proof (induction xs arbitrary: a)
  case Nil
  then show ?case by simp
next
  case (Cons y ys)
  show ?case
  proof (cases "x = y")
    case True
    have "x \<le> max y a" using True by simp
    also have "\<dots> \<le> fold max ys (max y a)" by (rule fold_max_ge)
    finally show ?thesis by simp
  next
    case False
    with Cons show ?thesis by simp
  qed
qed

lemma fresh_id_fresh:
  assumes "m \<in> set ms"
  shows "msg_id m \<noteq> Some (fresh_id ms)"
proof
  assume h: "msg_id m = Some (fresh_id ms)"
  with assms have "fresh_id ms \<in> set (List.map_filter msg_id ms)"
    by (force simp: map_filter_def)
  then have "fresh_id ms \<le> fold max (List.map_filter msg_id ms) 0"
    by (rule fold_max_member)
  then show False
    by (simp add: fresh_id_def)
qed

lemma merge_message_new:
  "\<not> list_ex (\<lambda>y. msg_id y = msg_id m) xs \<Longrightarrow> merge_message xs m = xs @ [m]"
  by (induction xs) auto

lemma add_messages_new:
  assumes "all_ids l" and "msg_id m = None"
  shows "add_messages l [m] = l @ [m\<lparr>msg_id := Some (fresh_id (l @ [m]))\<rparr>]"
proof -
  let ?m' = "m\<lparr>msg_id := Some (fresh_id (l @ [m]))\<rparr>"
  have "\<not> list_ex (\<lambda>y. msg_id y = msg_id ?m') l"
    using fresh_id_fresh [of _ "l @ [m]"] by (auto simp: list_ex_iff)
  then have "merge_message l ?m' = l @ [?m']"
    by (rule merge_message_new)
  then show ?thesis
    using assms by (simp add: add_messages_def Let_def assign_ids_all_ids no_missing_ids)
qed


lemma no_context_filter: "\<not> has_context c \<Longrightarrow> filter is_context_message c = []"
  by (simp add: has_context_def list_ex_iff filter_empty_conv)

lemma context_placed_inject:
  assumes "\<not> has_context c"
  shows "context_placed (inject_context d c)"
proof (cases "d \<noteq> [] \<and> c \<noteq> []")
  case True
  then have "inject_context d c =
      \<lparr>cls = SystemMessage, content = context_prefix @ take 4000 d @ context_suffix, msg_id = None\<rparr> # c"
    using assms by (simp add: inject_context_def Let_def)
  then show ?thesis
    using assms by (simp add: context_placed_def injected_is_context_message no_context_filter)
next
  case False
  then have "inject_context d c = c"
    by (auto simp: inject_context_def)
  then show ?thesis
    using assms by (simp add: context_placed_def)
qed

lemma agent_node_update:
  "\<exists>u. fst (agent_node ev d st) = [u] \<and> cls u = AIMessage \<and> msg_id u = None"
  by (simp add: agent_node_def error_msg_def Let_def split: outcome.splits)

lemma agent_node_calls:
  "snd (agent_node ev d st) = [] \<or> snd (agent_node ev d st) = [inject_context d st]"
  by (simp add: agent_node_def Let_def split: outcome.splits)

lemma not_context_AIMessage: "cls u = AIMessage \<Longrightarrow> \<not> is_context_message u"
  by (simp add: is_context_message_def)

lemma graph_invoke_no_context:
  assumes "\<not> has_context saved" and "\<not> has_context input"
  shows "\<not> has_context (fst (graph_invoke ev d saved input))"
proof -
  obtain u where u: "fst (agent_node ev d (add_messages saved input)) = [u]" "cls u = AIMessage"
    using agent_node_update by blast
  have st: "\<not> has_context (add_messages saved input)"
    using assms has_context_add_messages by blast
  have "\<not> has_context [u]"
    using u(2) by (simp add: not_context_AIMessage)
  with st have "\<not> has_context (add_messages (add_messages saved input) [u])"
    using has_context_add_messages by blast
  then show ?thesis
    using u(1) by (simp add: graph_invoke_def Let_def case_prod_unfold)
qed

lemma graph_invoke_calls:
  assumes "\<not> has_context saved" and "\<not> has_context input"
  shows "list_all context_placed (snd (graph_invoke ev d saved input))"
proof -
  have st: "\<not> has_context (add_messages saved input)"
    using assms has_context_add_messages by blast
  then have "context_placed (inject_context d (add_messages saved input))"
    by (rule context_placed_inject)
  then have "list_all context_placed (snd (agent_node ev d (add_messages saved input)))"
    using agent_node_calls [of ev d "add_messages saved input"] by auto
  then show ?thesis
    by (simp add: graph_invoke_def Let_def case_prod_unfold)
qed

lemma chat_input_invariant:
  assumes "\<not> has_context (chat_messages s)" and "\<not> has_context (checkpoint s)"
  shows "\<not> has_context (chat_messages (fst (chat_input ev s prompt)))"
    and "\<not> has_context (checkpoint (fst (chat_input ev s prompt)))"
    and "list_all context_placed (snd (snd (chat_input ev s prompt)))"
proof -
  let ?u = "\<lambda>p. \<lparr>cls = HumanMessage, content = p, msg_id = None\<rparr>"
  have inp: "\<not> has_context (chat_messages s @ [?u p])" for p
    using assms(1) by (simp add: is_context_message_def)
  have a: "\<not> has_context (fst (graph_invoke ev (extracted_text s) (checkpoint s) (chat_messages s @ [?u p])))" for p
    using assms(2) inp by (rule graph_invoke_no_context)
  have b: "list_all context_placed (snd (graph_invoke ev (extracted_text s) (checkpoint s) (chat_messages s @ [?u p])))" for p
    using assms(2) inp by (rule graph_invoke_calls)
  show "\<not> has_context (chat_messages (fst (chat_input ev s prompt)))"
    using assms a by (simp add: chat_input_def Let_def case_prod_unfold split: option.splits)
  show "\<not> has_context (checkpoint (fst (chat_input ev s prompt)))"
    using assms a by (simp add: chat_input_def Let_def case_prod_unfold split: option.splits)
  show "list_all context_placed (snd (snd (chat_input ev s prompt)))"
    using b by (simp add: chat_input_def Let_def case_prod_unfold split: option.splits)
qed

lemma run_turns_calls:
  "\<not> has_context (chat_messages s) \<Longrightarrow> \<not> has_context (checkpoint s) \<Longrightarrow>
   list_all context_placed (snd (run_turns ev s prompts))
   \<and> \<not> has_context (chat_messages (fst (run_turns ev s prompts)))"
proof (induction prompts arbitrary: s)
  case Nil
  then show ?case by simp
next
  case (Cons p ps)
  obtain s' shown calls where step: "chat_input ev s (Some p) = (s', shown, calls)"
    by (cases "chat_input ev s (Some p)") auto
  have s': "\<not> has_context (chat_messages s')" "\<not> has_context (checkpoint s')"
    and calls: "list_all context_placed calls"
    using chat_input_invariant [OF Cons.prems, of ev "Some p"] step by simp_all
  have "list_all context_placed (snd (run_turns ev s' ps))
     \<and> \<not> has_context (chat_messages (fst (run_turns ev s' ps)))"
    using s' by (rule Cons.IH)
  then show ?case
    using calls by (simp add: step case_prod_unfold)
qed

lemma merge_message_not_Nil: "merge_message xs m \<noteq> []"
  by (cases xs) auto

lemma fold_merge_not_Nil:
  "l \<noteq> [] \<or> r \<noteq> [] \<Longrightarrow> fold (\<lambda>m merged. merge_message merged m) r l \<noteq> []"
  by (induction r arbitrary: l) (auto simp: merge_message_not_Nil)

lemma assign_ids_Nil_iff: "assign_ids n ms = [] \<longleftrightarrow> ms = []"
  by (cases ms) (auto split: option.splits)

lemma add_messages_not_Nil: "r \<noteq> [] \<Longrightarrow> add_messages l r \<noteq> []"
  unfolding add_messages_def Let_def
  by (rule fold_merge_not_Nil) (simp add: assign_ids_Nil_iff)

lemma chat_input_has_context:
  assumes "extracted_text s \<noteq> []"
  shows "list_all has_context (snd (snd (chat_input ev s prompt)))"
    and "extracted_text (fst (chat_input ev s prompt)) = extracted_text s"
proof -
  let ?st = "\<lambda>p. add_messages (checkpoint s)
      (chat_messages s @ [\<lparr>cls = HumanMessage, content = p, msg_id = None\<rparr>])"
  have "?st p \<noteq> []" for p
    by (rule add_messages_not_Nil) simp
  then have "has_context (inject_context (extracted_text s) (?st p))" for p
    using assms by (simp add: has_context_after_injection)
  then have "list_all has_context (snd (agent_node ev (extracted_text s) (?st p)))" for p
    using agent_node_calls [of ev "extracted_text s" "?st p"] by auto
  then show "list_all has_context (snd (snd (chat_input ev s prompt)))"
    by (simp add: chat_input_def graph_invoke_def Let_def case_prod_unfold split: option.splits)
  show "extracted_text (fst (chat_input ev s prompt)) = extracted_text s"
    by (simp add: chat_input_def Let_def case_prod_unfold split: option.splits)
qed

lemma run_turns_has_context:
  "extracted_text s \<noteq> [] \<Longrightarrow> list_all has_context (snd (run_turns ev s prompts))"
proof (induction prompts arbitrary: s)
  case Nil
  then show ?case by simp
next
  case (Cons p ps)
  obtain s' shown calls where step: "chat_input ev s (Some p) = (s', shown, calls)"
    by (cases "chat_input ev s (Some p)") auto
  have "extracted_text s' \<noteq> []" and calls: "list_all has_context calls"
    using chat_input_has_context [OF Cons.prems, of ev "Some p"] Cons.prems step by simp_all
  then have "list_all has_context (snd (run_turns ev s' ps))"
    using Cons.IH by blast
  then show ?case
    using calls by (simp add: step case_prod_unfold)
qed

lemma str_in_Error: "str_in (py ''Error'') (py ''Error: '' @ t)"
proof -
  have "py ''Error: '' @ t = py ''Error'' @ (py '': '' @ t)"
    by (simp add: py_def)
  then show ?thesis
    by (simp add: str_in_def)
qed

text \<open>
  C3. Placement of the context message: for a conversation without a context message,
  the list that the context step produces has a context message only at index 0 and
  only once. Over any number of turns on the same loaded document, every list given to
  the model has exactly this shape and does hold the context message, and the stored
  conversation itself never holds one.
\<close>

theorem context_placement:
  assumes "\<not> has_context c"
    and "\<not> has_context (chat_messages s)" and "\<not> has_context (checkpoint s)"
    and "extracted_text s \<noteq> []"
  shows "context_placed (inject_context d c)
    \<and> list_all context_placed (snd (run_turns ev s prompts))
    \<and> list_all has_context (snd (run_turns ev s prompts))
    \<and> \<not> has_context (chat_messages (fst (run_turns ev s prompts)))"
  using assms context_placed_inject run_turns_calls run_turns_has_context by blast

theorem context_placement_witness:
  "context_placed (inject_context (py ''doc'')
       [\<lparr>cls = HumanMessage, content = py ''hi'', msg_id = None\<rparr>])
   \<and> list_all context_placed
       (snd (run_turns \<lparr>groq_client = Returns (\<lambda>ms. Returns (py ''ok''))\<rparr>
          (initial_session\<lparr>extracted_text := py ''doc'', documents_processed := True\<rparr>)
          [py ''a'', py ''b'']))
   \<and> list_all has_context
       (snd (run_turns \<lparr>groq_client = Returns (\<lambda>ms. Returns (py ''ok''))\<rparr>
          (initial_session\<lparr>extracted_text := py ''doc'', documents_processed := True\<rparr>)
          [py ''a'', py ''b'']))
   \<and> \<not> has_context
       (chat_messages (fst (run_turns \<lparr>groq_client = Returns (\<lambda>ms. Returns (py ''ok''))\<rparr>
          (initial_session\<lparr>extracted_text := py ''doc'', documents_processed := True\<rparr>)
          [py ''a'', py ''b''])))"
proof -
  let ?s = "initial_session\<lparr>extracted_text := py ''doc'', documents_processed := True\<rparr>"
  have c: "\<not> has_context [\<lparr>cls = HumanMessage, content = py ''hi'', msg_id = None\<rparr>]"
    by (simp add: is_context_message_def)
  have s1: "\<not> has_context (chat_messages ?s)" and s2: "\<not> has_context (checkpoint ?s)"
    by (simp_all add: initial_session_def)
  have s3: "extracted_text ?s \<noteq> []"
    by (simp add: py_def)
  show ?thesis
    by (rule context_placement [OF c s1 s2 s3])
qed

text \<open>
  C5. Turn rejection: while no text is loaded, a submitted input leaves the session as
  it is, with the conversation unchanged, calls no model, and shows the warning to load
  a document first. (An empty input is no submission: the script then does nothing.)
\<close>

theorem turn_rejection:
  assumes "extracted_text s = []" and "p \<noteq> []"
  shows "chat_input ev s (Some p) = (s, [WarnLoadDocumentFirst], [])
    \<and> fst (chat_input ev s prompt) = s
    \<and> snd (snd (chat_input ev s prompt)) = []"
  using assms by (simp add: chat_input_def split: option.splits)

theorem turn_rejection_witness:
  "chat_input \<lparr>groq_client = Returns (\<lambda>ms. Returns (py ''ok''))\<rparr> initial_session (Some (py ''hi''))
     = (initial_session, [WarnLoadDocumentFirst], [])"
proof -
  have a: "extracted_text initial_session = []"
    by (simp add: initial_session_def)
  have b: "py ''hi'' \<noteq> []"
    by (simp add: py_def)
  show ?thesis
    using turn_rejection [OF a b] by simp
qed

text \<open>
  C6. Failure containment: with a text loaded, when the call of the model raises, the
  node returns the message "Error: ..." instead of raising, and the turn ends with the
  conversation being the merged history with the user message, followed by that one
  assistant message, whose content starts with "Error: " and carries the text of the
  exception. The loaded text stays, so the next turn is accepted.
\<close>

theorem failure_containment:
  assumes "extracted_text s \<noteq> []" and "p \<noteq> []"
    and "groq_client ev = Returns llm"
    and "llm (inject_context (extracted_text s)
           (add_messages (checkpoint s)
              (chat_messages s @ [\<lparr>cls = HumanMessage, content = p, msg_id = None\<rparr>]))) = Raises e"
  shows "fst (agent_node ev (extracted_text s)
           (add_messages (checkpoint s)
              (chat_messages s @ [\<lparr>cls = HumanMessage, content = p, msg_id = None\<rparr>]))) = [error_msg e]
    \<and> chat_messages (fst (chat_input ev s (Some p))) \<noteq> []
    \<and> butlast (chat_messages (fst (chat_input ev s (Some p))))
        = add_messages (checkpoint s)
            (chat_messages s @ [\<lparr>cls = HumanMessage, content = p, msg_id = None\<rparr>])
    \<and> cls (last (chat_messages (fst (chat_input ev s (Some p))))) = AIMessage
    \<and> content (last (chat_messages (fst (chat_input ev s (Some p))))) = py ''Error: '' @ str_of e
    \<and> str_in (py ''Error'') (content (last (chat_messages (fst (chat_input ev s (Some p))))))
    \<and> extracted_text (fst (chat_input ev s (Some p))) = extracted_text s"
proof -
  let ?st = "add_messages (checkpoint s)
      (chat_messages s @ [\<lparr>cls = HumanMessage, content = p, msg_id = None\<rparr>])"
  have node: "agent_node ev (extracted_text s) ?st
      = ([error_msg e], [inject_context (extracted_text s) ?st])"
    using assms(3,4) by (simp add: agent_node_def Let_def)
  have "add_messages ?st [error_msg e]
      = ?st @ [(error_msg e)\<lparr>msg_id := Some (fresh_id (?st @ [error_msg e]))\<rparr>]"
    by (rule add_messages_new) (simp_all add: all_ids_add_messages error_msg_def)
  then have conv: "chat_messages (fst (chat_input ev s (Some p)))
      = ?st @ [(error_msg e)\<lparr>msg_id := Some (fresh_id (?st @ [error_msg e]))\<rparr>]"
    using assms(1,2) by (simp add: chat_input_def graph_invoke_def node Let_def)
  have same: "extracted_text (fst (chat_input ev s (Some p))) = extracted_text s"
    using assms(1) by (rule chat_input_has_context)
  show ?thesis
    by (simp add: node conv same str_in_Error) (simp add: error_msg_def str_in_Error)
qed

theorem failure_containment_witness:
  "cls (last (chat_messages (fst (chat_input
       \<lparr>groq_client = Returns (\<lambda>ms. Raises (Exception (py ''boom'')))\<rparr>
       (initial_session\<lparr>extracted_text := py ''doc'', documents_processed := True\<rparr>)
       (Some (py ''hi'')))))) = AIMessage
   \<and> content (last (chat_messages (fst (chat_input
       \<lparr>groq_client = Returns (\<lambda>ms. Raises (Exception (py ''boom'')))\<rparr>
       (initial_session\<lparr>extracted_text := py ''doc'', documents_processed := True\<rparr>)
       (Some (py ''hi'')))))) = py ''Error: boom''"
proof -
  let ?s = "initial_session\<lparr>extracted_text := py ''doc'', documents_processed := True\<rparr>"
  let ?llm = "\<lambda>ms :: message list. Raises (Exception (py ''boom'')) :: pystr outcome"
  have a: "extracted_text ?s \<noteq> []" and b: "py ''hi'' \<noteq> []"
    by (simp_all add: py_def)
  have c: "groq_client \<lparr>groq_client = Returns ?llm\<rparr> = Returns ?llm"
    by simp
  have d: "?llm (inject_context (extracted_text ?s)
           (add_messages (checkpoint ?s)
              (chat_messages ?s @ [\<lparr>cls = HumanMessage, content = py ''hi'', msg_id = None\<rparr>])))
        = Raises (Exception (py ''boom''))"
    by simp
  have e: "py ''Error: '' @ str_of (Exception (py ''boom'')) = py ''Error: boom''"
    by (simp add: py_def)
  show ?thesis
    using failure_containment [OF a b c d] e by simp
qed

section \<open>Loading documents\<close>

lemma lines_of_append: "lines_of (xs @ ys) = lines_of xs @ lines_of ys"
  by (simp add: lines_of_def)

lemma read_pages_returns:
  "\<not> list_ex page_raises pages \<Longrightarrow>
   read_pages pages acc = Returns (acc @ lines_of (filter (\<lambda>t. t \<noteq> []) (map page_text pages)))"
  by (induction pages acc rule: read_pages.induct)
     (auto simp: lines_of_def split: outcome.splits option.splits)

lemma read_pages_raises:
  "list_ex page_raises pages \<Longrightarrow> \<exists>e. read_pages pages acc = Raises e"
  by (induction pages acc rule: read_pages.induct)
     (auto split: outcome.splits option.splits)

lemma process_files_returns:
  "\<not> list_ex file_raises (present fs) \<Longrightarrow>
   process_files fs acc shown
     = (Returns (acc @ lines_of (concat (map file_page_texts (present fs)))),
        shown @ concat (map file_warnings (present fs)))"
proof (induction fs acc shown rule: process_files.induct)
  case (1 acc shown)
  then show ?case by (simp add: lines_of_def)
next
  case (2 fs acc shown)
  then show ?case by simp
next
  case (3 f fs acc shown)
  from "3.prems" have nf: "\<not> file_raises f" and rest: "\<not> list_ex file_raises (present fs)"
    by simp_all
  from nf obtain u where sk: "seek f = Returns u"
    by (cases "seek f") (auto simp: file_raises_def)
  from nf sk obtain r where rd: "pdf_reader f = Returns r"
    by (cases "pdf_reader f") (auto simp: file_raises_def)
  show ?case
  proof (cases r)
    case None
    then show ?thesis
      using "3.IH"(1) [OF sk rd None rest] sk rd
      by (simp add: file_page_texts_def file_warnings_def)
  next
    case (Some pages)
    have np: "\<not> list_ex page_raises pages"
      using nf sk rd Some by (simp add: file_raises_def)
    have rp: "read_pages pages acc
        = Returns (acc @ lines_of (filter (\<lambda>t. t \<noteq> []) (map page_text pages)))"
      using np by (rule read_pages_returns)
    show ?thesis
      using "3.IH"(2) [OF sk rd Some rp rest] sk rd Some rp
      by (simp add: file_page_texts_def file_warnings_def lines_of_append)
  qed
qed

lemma process_files_raises:
  "list_ex file_raises (present fs) \<Longrightarrow> \<exists>e shown'. process_files fs acc shown = (Raises e, shown')"
proof (induction fs acc shown rule: process_files.induct)
  case (1 acc shown)
  then show ?case by simp
next
  case (2 fs acc shown)
  then show ?case by simp
next
  case (3 f fs acc shown)
  from "3.prems" have prem: "file_raises f \<or> list_ex file_raises (present fs)"
    by simp
  show ?case
  proof (cases "seek f")
    case (Raises e)
    then show ?thesis by simp
  next
    case sk: (Returns u)
    show ?thesis
    proof (cases "pdf_reader f")
      case (Raises e)
      then show ?thesis using sk by simp
    next
      case rd: (Returns r)
      show ?thesis
      proof (cases r)
        case None
        then have "\<not> file_raises f"
          using sk rd by (simp add: file_raises_def)
        then have "list_ex file_raises (present fs)"
          using prem by simp
        then show ?thesis
          using "3.IH"(1) [OF sk rd None] sk rd None by simp
      next
        case (Some pages)
        show ?thesis
        proof (cases "read_pages pages acc")
          case (Raises e)
          then show ?thesis using sk rd Some by simp
        next
          case rp: (Returns acc')
          have "\<not> list_ex page_raises pages"
            using read_pages_raises [of pages acc] rp by auto
          then have "\<not> file_raises f"
            using sk rd Some by (simp add: file_raises_def)
          then have "list_ex file_raises (present fs)"
            using prem by simp
          then show ?thesis
            using "3.IH"(2) [OF sk rd Some rp] sk rd Some rp by simp
        qed
      qed
    qed
  qed
qed

lemma extract_web_text_url:
  "extract_web_text g (s\<lparr>web_url := Some url, uploaded_pdf := a, documents_processed := b,
       chat_messages := c, extracted_text := d\<rparr>)
   = extract_web_text g (s\<lparr>web_url := Some url\<rparr>)"
  by (simp add: extract_web_text_def)

lemma extract_pdf_text_upload:
  "extract_pdf_text (s\<lparr>uploaded_pdf := up, web_url := a, documents_processed := b,
       chat_messages := c, extracted_text := d\<rparr>)
   = extract_pdf_text (s\<lparr>uploaded_pdf := up\<rparr>)"
  by (simp add: extract_pdf_text_def)


lemma page_text_old:
  "extract_web_text (page_with (py ''old'')) (initial_session\<lparr>web_url := Some (py ''u'')\<rparr>)
     = (py ''old'', [])"
  by (simp add: extract_web_text_def page_with_def status_page_def raise_for_status_def py_def
        is_linebreak_def strip_def is_space_def)

lemma page_text_new:
  "extract_web_text (page_with (py ''new'')) (initial_session\<lparr>web_url := Some (py ''u'')\<rparr>)
     = (py ''new'', [])"
  by (simp add: extract_web_text_def page_with_def status_page_def raise_for_status_def py_def
        is_linebreak_def strip_def is_space_def)

lemma first_load:
  "fst (web_url_branch (page_with (py ''old'')) initial_session (py ''u'') True) = loaded_session"
proof -
  have "initial_session\<lparr>web_url := Some (py ''u''), uploaded_pdf := NoUpload,
      documents_processed := False, chat_messages := [], extracted_text := []\<rparr>
      = initial_session\<lparr>web_url := Some (py ''u'')\<rparr>"
    by (simp add: initial_session_def)
  moreover have "py ''u'' \<noteq> []" and "web_url initial_session \<noteq> Some (py ''u'')"
    by (simp_all add: py_def initial_session_def)
  ultimately show ?thesis
    using page_text_old
    by (simp add: web_url_branch_def Let_def loaded_session_def) (simp add: py_def initial_session_def)
qed

lemma one_turn:
  "fst (chat_input ev_ok loaded_session (Some (py ''hi''))) = chatted_session"
  by (simp add: chat_input_def graph_invoke_def agent_node_def add_messages_def fresh_id_def
        map_filter_simps inject_context_def has_context_def is_context_message_def Let_def
        ev_ok_def loaded_session_def chatted_session_def one_exchange_def initial_session_def
        py_def)

text \<open>
  C4, as the specification states it, fails: loading is not an unconditional reset. After
  a page was loaded from a URL and one turn was made, pressing "Load URL" again for the
  same URL, whose page now has another text, leaves the conversation of two messages and
  the old text in place.
\<close>

theorem reload_same_url_counterexample:
  "chat_messages (fst (web_url_branch (page_with (py ''new''))
      (fst (chat_input ev_ok
         (fst (web_url_branch (page_with (py ''old'')) initial_session (py ''u'') True))
         (Some (py ''hi''))))
      (py ''u'') True))
     = [\<lparr>cls = HumanMessage, content = py ''hi'', msg_id = Some 1\<rparr>,
        \<lparr>cls = AIMessage, content = py ''ok'', msg_id = Some 2\<rparr>]
   \<and> extracted_text (fst (web_url_branch (page_with (py ''new''))
      (fst (chat_input ev_ok
         (fst (web_url_branch (page_with (py ''old'')) initial_session (py ''u'') True))
         (Some (py ''hi''))))
      (py ''u'') True)) = py ''old''
   \<and> fst (extract_web_text (page_with (py ''new'')) (initial_session\<lparr>web_url := Some (py ''u'')\<rparr>))
     = py ''new''"
proof -
  have turn: "fst (chat_input ev_ok
      (fst (web_url_branch (page_with (py ''old'')) initial_session (py ''u'') True))
      (Some (py ''hi''))) = chatted_session"
    by (simp only: first_load one_turn)
  have reload: "web_url_branch (page_with (py ''new'')) chatted_session (py ''u'') True
      = (chatted_session, [])"
    by (simp add: web_url_branch_def chatted_session_def loaded_session_def)
  show ?thesis
    unfolding turn reload
    by (simp add: page_text_new chatted_session_def loaded_session_def one_exchange_def)
qed

text \<open>
  C4, amended. When the source that is submitted differs from the one the session
  records (the uploaded files, or the URL), the load empties the message list of the
  session (\<open>chat_messages\<close>) and the text becomes the text extracted from the new source
  (empty, and the document not ready, when the extraction gives nothing), for PDF and URL
  alike. When the source is the recorded one and the document is already processed, the
  session is left as it is. The statement is about the message list of the session at
  the end of the load.
\<close>

theorem document_switch:
  "(truthy_upload up \<and> uploaded_pdf s \<noteq> up \<longrightarrow>
      chat_messages (fst (pdf_upload_branch s up)) = []
      \<and> extracted_text (fst (pdf_upload_branch s up)) = fst (extract_pdf_text (s\<lparr>uploaded_pdf := up\<rparr>))
      \<and> documents_processed (fst (pdf_upload_branch s up))
          = (fst (extract_pdf_text (s\<lparr>uploaded_pdf := up\<rparr>)) \<noteq> []))
   \<and> (url \<noteq> [] \<and> web_url s \<noteq> Some url \<longrightarrow>
      chat_messages (fst (web_url_branch requests_get s url True)) = []
      \<and> extracted_text (fst (web_url_branch requests_get s url True))
          = fst (extract_web_text requests_get (s\<lparr>web_url := Some url\<rparr>))
      \<and> documents_processed (fst (web_url_branch requests_get s url True))
          = (fst (extract_web_text requests_get (s\<lparr>web_url := Some url\<rparr>)) \<noteq> []))
   \<and> (documents_processed s \<and> uploaded_pdf s = up \<longrightarrow> pdf_upload_branch s up = (s, []))
   \<and> (documents_processed s \<and> web_url s = Some url \<longrightarrow>
        web_url_branch requests_get s url button = (s, []))"
  by (simp add: pdf_upload_branch_def web_url_branch_def Let_def extract_pdf_text_upload
        extract_web_text_url case_prod_unfold)

theorem document_switch_witness:
  "chat_messages chatted_session = one_exchange
   \<and> chat_messages (fst (pdf_upload_branch chatted_session (FileList [Some good_file]))) = []
   \<and> extracted_text (fst (pdf_upload_branch chatted_session (FileList [Some good_file])))
       = fst (extract_pdf_text (chatted_session\<lparr>uploaded_pdf := FileList [Some good_file]\<rparr>))
   \<and> chat_messages (fst (web_url_branch (page_with (py ''new'')) chatted_session (py ''v'') True)) = []
   \<and> extracted_text (fst (web_url_branch (page_with (py ''new'')) chatted_session (py ''v'') True))
       = fst (extract_web_text (page_with (py ''new'')) (chatted_session\<lparr>web_url := Some (py ''v'')\<rparr>))
   \<and> web_url_branch (page_with (py ''new'')) chatted_session (py ''u'') True = (chatted_session, [])
   \<and> pdf_upload_branch pdf_chatted_session (FileList [Some good_file]) = (pdf_chatted_session, [])"
proof -
  have a: "truthy_upload (FileList [Some good_file])"
    and b: "uploaded_pdf chatted_session \<noteq> FileList [Some good_file]"
    and c: "py ''v'' \<noteq> []" and d: "web_url chatted_session \<noteq> Some (py ''v'')"
    and e: "documents_processed chatted_session" and f: "web_url chatted_session = Some (py ''u'')"
    and g: "documents_processed pdf_chatted_session"
    and h: "uploaded_pdf pdf_chatted_session = FileList [Some good_file]"
    and i: "chat_messages chatted_session = one_exchange"
    by (simp_all add: chatted_session_def pdf_chatted_session_def loaded_session_def
          initial_session_def py_def)
  show ?thesis
    using document_switch [of "FileList [Some good_file]" chatted_session "py ''v''"
        "page_with (py ''new'')"]
      document_switch [of "FileList [Some good_file]" chatted_session "py ''u''"
        "page_with (py ''new'')" True]
      document_switch [of "FileList [Some good_file]" pdf_chatted_session]
      a b c d e f g h i
    by simp
qed

text \<open>
  Neither branch of the sidebar touches the graph: the history that its saver holds for
  the thread stays, and \<open>graph.invoke\<close> merges it into the next turn. After the switch
  from the URL \<open>u\<close> to the URL \<open>v\<close> above, the next question is answered on a message list
  that starts with the exchange about the first document.
\<close>

lemma saver_untouched_by_load:
  "checkpoint (fst (web_url_branch requests_get s url button)) = checkpoint s
   \<and> checkpoint (fst (pdf_upload_branch s up)) = checkpoint s"
  by (simp add: web_url_branch_def pdf_upload_branch_def Let_def case_prod_unfold)

lemma history_returns_after_switch:
  "map content (chat_messages (fst (chat_input ev_ok
      (fst (web_url_branch (page_with (py ''new'')) chatted_session (py ''v'') True))
      (Some (py ''q'')))))
     = [py ''hi'', py ''ok'', py ''q'', py ''ok'']"
proof -
  have eq: "chatted_session\<lparr>web_url := Some (py ''v''), uploaded_pdf := NoUpload,
      documents_processed := False, chat_messages := [], extracted_text := []\<rparr>
      = initial_session\<lparr>web_url := Some (py ''v''), checkpoint := one_exchange\<rparr>"
    by (simp add: chatted_session_def loaded_session_def initial_session_def)
  have txt_new: "extract_web_text (page_with (py ''new''))
      (initial_session\<lparr>web_url := Some (py ''v''), checkpoint := one_exchange\<rparr>) = (py ''new'', [])"
    by (simp add: extract_web_text_def page_with_def status_page_def raise_for_status_def py_def
          is_linebreak_def strip_def is_space_def initial_session_def)
  have v: "py ''v'' \<noteq> []" and w: "web_url chatted_session \<noteq> Some (py ''v'')"
    and n: "py ''new'' \<noteq> []"
    by (simp_all add: py_def chatted_session_def loaded_session_def)
  have load: "fst (web_url_branch (page_with (py ''new'')) chatted_session (py ''v'') True)
      = initial_session\<lparr>web_url := Some (py ''v''), checkpoint := one_exchange,
          extracted_text := py ''new'', documents_processed := True\<rparr>"
    using v w n by (simp add: web_url_branch_def Let_def eq txt_new) (simp add: initial_session_def)
  show ?thesis
    unfolding load
    by (simp add: chat_input_def graph_invoke_def agent_node_def add_messages_def fresh_id_def
          map_filter_simps inject_context_def has_context_def is_context_message_def Let_def
          ev_ok_def one_exchange_def initial_session_def py_def)
qed

text \<open>
  C7, as the specification states it, fails: a file that cannot be read aborts the whole
  extraction. With a readable file followed by one whose reader raises, the result is the
  empty string and an error, although the readable file alone gives its text.
\<close>

theorem pdf_failure_aborts_counterexample:
  "extract_pdf_text (initial_session\<lparr>uploaded_pdf := FileList [Some good_file, Some bad_file]\<rparr>)
     = ([], [ErrorProcessingPdf (Exception (py ''EOF marker not found''))])
   \<and> extract_pdf_text (initial_session\<lparr>uploaded_pdf := FileList [Some good_file]\<rparr>)
     = (py ''abc'', [])"
  by (simp add: extract_pdf_text_def good_file_def bad_file_def strip_def is_space_def py_def)

text \<open>
  C7, amended. For a non-empty list of uploaded files: when no file raises, the result is
  the stripped concatenation of the non-empty page texts of all files, in order, each
  followed by a newline, where a missing file, a page that is \<open>None\<close> and a page without
  text are skipped and a reader without pages is skipped with a warning; when some file
  raises, the extraction of all files is given up: the result is the empty string, and
  the last thing shown is the error.
\<close>

theorem pdf_extraction_all_or_nothing:
  assumes "uploaded_pdf s = FileList fs" and "fs \<noteq> []"
  shows "(list_ex file_raises (present fs) \<longrightarrow>
            fst (extract_pdf_text s) = []
            \<and> (\<exists>e. last (snd (extract_pdf_text s)) = ErrorProcessingPdf e))
    \<and> (\<not> list_ex file_raises (present fs) \<longrightarrow>
            extract_pdf_text s
              = (strip (lines_of (concat (map file_page_texts (present fs)))),
                 concat (map file_warnings (present fs))))"
proof (cases "list_ex file_raises (present fs)")
  case True
  then obtain e shown' where "process_files fs [] [] = (Raises e, shown')"
    using process_files_raises by blast
  then show ?thesis
    using assms True by (simp add: extract_pdf_text_def)
next
  case False
  then have "process_files fs [] []
      = (Returns (lines_of (concat (map file_page_texts (present fs)))),
         concat (map file_warnings (present fs)))"
    using process_files_returns [of fs "[]" "[]"] by simp
  then show ?thesis
    using assms False by (simp add: extract_pdf_text_def)
qed

theorem pdf_extraction_all_or_nothing_witness:
  "fst (extract_pdf_text (initial_session\<lparr>uploaded_pdf := FileList [Some good_file, Some bad_file]\<rparr>)) = []
   \<and> extract_pdf_text (initial_session\<lparr>uploaded_pdf := FileList [Some good_file]\<rparr>)
       = (strip (lines_of (concat (map file_page_texts (present [Some good_file])))),
          concat (map file_warnings (present [Some good_file])))"
proof -
  have a: "uploaded_pdf (initial_session\<lparr>uploaded_pdf := FileList [Some good_file, Some bad_file]\<rparr>)
      = FileList [Some good_file, Some bad_file]"
    and b: "uploaded_pdf (initial_session\<lparr>uploaded_pdf := FileList [Some good_file]\<rparr>)
      = FileList [Some good_file]"
    by simp_all
  have c: "list_ex file_raises (present [Some good_file, Some bad_file])"
    by (simp add: file_raises_def good_file_def bad_file_def)
  have d: "\<not> list_ex file_raises (present [Some good_file])"
    by (simp add: file_raises_def good_file_def)
  show ?thesis
    using pdf_extraction_all_or_nothing [OF a] pdf_extraction_all_or_nothing [OF b] c d
    by simp
qed





end
